theory Spec2Isabelle
  imports Main "HOL-Library.Sublist" "HOL-Library.AList" "HOL-Library.Multiset"
begin

section \<open>The elastic search grid (src/grid.tsx)\<close>

text \<open>
  The component \<open>ElasticSearchGrid\<close> keeps three pieces of state (\<open>inputValue\<close>,
  \<open>selected\<close>, \<open>availableRows\<close>) and a reference to the grid. From them it derives the
  value index \<open>columnValueMap\<close> and the list \<open>suggestions\<close>; its handlers change the chips
  and push a filter model and a row predicate into the grid (\<open>applyFilters\<close>).
\<close>

subsection \<open>Strings\<close>

text \<open>
  A string is a list of characters. \<open>includes_str s t\<close> is \<open>s.includes(t)\<close>: \<open>t\<close>
  occurs in \<open>s\<close> as a contiguous run (the empty string occurs in every string).
\<close>

fun includes_str :: "string \<Rightarrow> string \<Rightarrow> bool" where
  "includes_str [] t = (t = [])"
| "includes_str (c # s) t = (prefix t (c # s) \<or> includes_str s t)"

text \<open>
  \<open>String.prototype.toLowerCase\<close> belongs to the runtime, not to the repository, and
  is a function of the whole string (it maps letters of every script, and a letter's
  image may depend on its neighbours). Every definition that calls it takes it as the
  parameter \<open>toLowerCase\<close>, and the theorems hold for every function in its place;
  where a theorem needs a property of it, the theorem says so.

  The spec's words: \<open>t\<close> is a case-insensitive substring of \<open>v\<close> when the lowercased
  \<open>t\<close> is a contiguous part of the lowercased \<open>v\<close>.
\<close>

definition ci_substring :: "(string \<Rightarrow> string) \<Rightarrow> string \<Rightarrow> string \<Rightarrow> bool" where
  "ci_substring toLowerCase t v = sublist (toLowerCase t) (toLowerCase v)"

text \<open>
  What \<open>toLowerCase\<close> does on text of ASCII characters only: \<open>A\<close> .. \<open>Z\<close> (codes
  65 .. 90) become \<open>a\<close> .. \<open>z\<close>, every other character stays. It stands for
  \<open>toLowerCase\<close> in the examples, whose strings are all ASCII.
\<close>

definition ascii_lower_char :: "char \<Rightarrow> char" where
  "ascii_lower_char c =
     (let n = (of_char c :: nat) in if 65 \<le> n \<and> n \<le> 90 then char_of (n + 32) else c)"

definition ascii_lower :: "string \<Rightarrow> string" where
  "ascii_lower s = map ascii_lower_char s"

subsection \<open>Data\<close>

text \<open>\<open>type RowData\<close> and \<open>type Suggestion\<close> of the source.\<close>

record RowData =
  ticker :: string
  name :: string
  sector :: string

record Suggestion =
  column :: string
  "value" :: string

text \<open>
  \<open>Object.entries(row)\<close> and \<open>Object.values(row)\<close> of a \<open>RowData\<close>: its three fields in
  declaration order. Every field is a string, on which \<open>String(val)\<close> is the identity.
\<close>

definition Object_entries :: "RowData \<Rightarrow> (string \<times> string) list" where
  "Object_entries row = [(''ticker'', ticker row), (''name'', name row), (''sector'', sector row)]"

definition Object_values :: "RowData \<Rightarrow> string list" where
  "Object_values row = map snd (Object_entries row)"

definition String_of :: "string \<Rightarrow> string" where
  "String_of val = val"

text \<open>The constant \<open>rowData\<close> of the source.\<close>

definition rowData :: "RowData list" where
  "rowData =
     [\<lparr>ticker = ''AAPL'', name = ''Apple Inc.'', sector = ''Tech''\<rparr>,
      \<lparr>ticker = ''GOOG'', name = ''Alphabet Inc.'', sector = ''Tech''\<rparr>,
      \<lparr>ticker = ''TSLA'', name = ''Tesla Inc.'', sector = ''Auto''\<rparr>,
      \<lparr>ticker = ''JPM'', name = ''JP Morgan'', sector = ''Finance''\<rparr>,
      \<lparr>ticker = ''F'', name = ''Ford'', sector = ''Auto''\<rparr>]"

text \<open>
  The constant \<open>columnDefs\<close> of the source: the \<open>field\<close> and the \<open>filter\<close> of each
  column of the grid. They are the fields of \<open>RowData\<close>, and with \<open>global\<close> they are the
  columns that the \<open>Suggestion\<close> type names for a suggestion.
\<close>

definition columnDefs :: "(string \<times> string) list" where
  "columnDefs =
     [(''ticker'', ''agSetColumnFilter''), (''name'', ''agSetColumnFilter''),
      (''sector'', ''agSetColumnFilter'')]"

subsection \<open>The value index\<close>

text \<open>
  A \<open>Set<string>\<close> is the list of its members in insertion order, without repetition;
  \<open>Set_add\<close> is \<open>Set.prototype.add\<close>. A \<open>Record<string, Set<string>>\<close> is the list of its
  own properties in insertion order, which is the order \<open>Object.entries\<close> enumerates
  them in; \<open>map_of\<close> reads a property and \<open>None\<close> is \<open>undefined\<close>.
\<close>

type_synonym js_set = "string list"

type_synonym index = "(string \<times> js_set) list"

definition Set_add :: "string \<Rightarrow> js_set \<Rightarrow> js_set" where
  "Set_add v s = (if v \<in> set s then s else s @ [v])"

text \<open>
  The body of the inner \<open>forEach\<close> of \<open>columnValueMap\<close>:
  \<^verbatim>\<open>if (!map[col]) map[col] = new Set(); map[col].add(String(val));\<close>
  The columns are the fields of \<open>RowData\<close>, so \<open>map[col]\<close> is either a set stored before
  (an object, truthy) or \<open>undefined\<close>.
\<close>

definition columnValueMap_each :: "string \<times> string \<Rightarrow> index \<Rightarrow> index" where
  "columnValueMap_each e m =
     (let col = fst e; val = snd e;
          m' = (if map_of m col = None then m @ [(col, [])] else m)
      in AList.map_entry col (Set_add (String_of val)) m')"

definition columnValueMap :: "RowData list \<Rightarrow> index" where
  "columnValueMap availableRows =
     fold (\<lambda>row m. fold columnValueMap_each (Object_entries row) m) availableRows []"

text \<open>The index read as a mapping from column names to sets of strings.\<close>

definition index_keys :: "index \<Rightarrow> string set" where
  "index_keys I = fst ` set I"

definition index_map :: "index \<Rightarrow> string \<rightharpoonup> string set" where
  "index_map I c = map_option set (map_of I c)"

subsection \<open>Suggestions\<close>

text \<open>
  \<open>suggestions\<close>: the empty string is falsy, so nothing is suggested for it; otherwise
  every column of the index and every value of its set is visited in order, and the
  matching pairs are pushed onto \<open>results\<close>.
\<close>

definition suggestions_each ::
  "(string \<Rightarrow> string) \<Rightarrow> string \<Rightarrow> string \<Rightarrow> string \<Rightarrow> Suggestion list \<Rightarrow> Suggestion list" where
  "suggestions_each toLowerCase inputValue col val results =
     (if includes_str (toLowerCase val) (toLowerCase inputValue)
      then results @ [\<lparr>column = col, value = val\<rparr>] else results)"

definition suggestions :: "(string \<Rightarrow> string) \<Rightarrow> string \<Rightarrow> index \<Rightarrow> Suggestion list" where
  "suggestions toLowerCase inputValue columnValueMap' =
     (if inputValue = [] then []
      else fold (\<lambda>(col, vals) results.
                   fold (suggestions_each toLowerCase inputValue col) vals results)
             columnValueMap' [])"

subsection \<open>Translating the chips into filters\<close>

text \<open>
  \<open>filterModel\<close> starts as the object literal \<^verbatim>\<open>{}\<close>. Reading \<open>filterModel[k]\<close>
  finds an own property, or else a property that every plain object inherits from
  \<open>Object.prototype\<close> (all of them truthy, none with an array \<open>values\<close>), or else
  \<open>undefined\<close>. The own properties are kept in insertion order.
\<close>

datatype error = TypeError

datatype 'v property = Own 'v | Inherited | Undefined

definition Object_prototype :: "string list" where
  "Object_prototype =
     [''constructor'', ''__defineGetter__'', ''__defineSetter__'', ''hasOwnProperty'',
      ''__lookupGetter__'', ''__lookupSetter__'', ''isPrototypeOf'', ''propertyIsEnumerable'',
      ''toString'', ''valueOf'', ''__proto__'', ''toLocaleString'']"

definition get_property :: "(string \<times> 'v) list \<Rightarrow> string \<Rightarrow> 'v property" where
  "get_property obj k =
     (case map_of obj k of
        Some v \<Rightarrow> Own v
      | None \<Rightarrow> if k \<in> set Object_prototype then Inherited else Undefined)"

record FilterEntry =
  filterType :: string
  "values" :: "string list"

type_synonym filter_model = "(string \<times> FilterEntry) list"

text \<open>
  The body of the \<open>forEach\<close> of \<open>applyFilters\<close>, on the pair of \<open>filterModel\<close> and
  \<open>globalTerms\<close>. An entry is created only where \<open>filterModel[s.column]\<close> is falsy, that
  is \<open>undefined\<close>; \<open>filterModel[s.column].values.push\<close> on an inherited property raises
  a \<open>TypeError\<close>, which ends the loop.
\<close>

definition applyFilters_each ::
  "(string \<Rightarrow> string) \<Rightarrow> Suggestion \<Rightarrow> filter_model \<times> string list \<Rightarrow>
     error + filter_model \<times> string list" where
  "applyFilters_each toLowerCase s acc =
     (let fm = fst acc; globalTerms = snd acc in
      if column s = ''global'' then Inr (fm, globalTerms @ [toLowerCase (value s)])
      else
        (let fm' = (case get_property fm (column s) of
                      Undefined \<Rightarrow> fm @ [(column s, \<lparr>filterType = ''set'', values = []\<rparr>)]
                    | _ \<Rightarrow> fm)
         in case get_property fm' (column s) of
              Own entry \<Rightarrow>
                Inr (AList.map_entry (column s) (\<lambda>e. e\<lparr>values := values e @ [value s]\<rparr>) fm',
                     globalTerms)
            | _ \<Rightarrow> Inl TypeError))"

fun forEach :: "('a \<Rightarrow> 's \<Rightarrow> error + 's) \<Rightarrow> 'a list \<Rightarrow> 's \<Rightarrow> error + 's" where
  "forEach f [] acc = Inr acc"
| "forEach f (x # xs) acc = (case f x acc of Inl e \<Rightarrow> Inl e | Inr acc' \<Rightarrow> forEach f xs acc')"

definition applyFilters_forEach ::
  "(string \<Rightarrow> string) \<Rightarrow> Suggestion list \<Rightarrow> error + filter_model \<times> string list" where
  "applyFilters_forEach toLowerCase filters =
     forEach (applyFilters_each toLowerCase) filters ([], [])"

text \<open>
  The two grid options that \<open>applyFilters\<close> installs; both close over \<open>globalTerms\<close>.
  \<open>node.data\<close> is the row.
\<close>

definition isExternalFilterPresent :: "string list \<Rightarrow> bool" where
  "isExternalFilterPresent globalTerms = (length globalTerms > 0)"

definition doesExternalFilterPass ::
  "(string \<Rightarrow> string) \<Rightarrow> string list \<Rightarrow> RowData \<Rightarrow> bool" where
  "doesExternalFilterPass toLowerCase globalTerms data =
     (if length globalTerms = 0 then True
      else list_all
             (\<lambda>t. list_ex (\<lambda>val. includes_str (toLowerCase (String_of val)) t) (Object_values data))
             globalTerms)"

text \<open>
  What \<open>applyFilters\<close> leaves in the grid: the filter model given to \<open>setFilterModel\<close>,
  the two options, and the number of calls of \<open>onFilterChanged\<close>. Without a grid
  (\<open>gridRef.current?.api\<close> undefined) \<open>applyFilters\<close> returns before it does anything.
\<close>

record GridApi =
  gridFilterModel :: filter_model
  gridIsExternalFilterPresent :: "unit \<Rightarrow> bool"
  gridDoesExternalFilterPass :: "RowData \<Rightarrow> bool"
  gridFilterChanged :: nat

definition applyFilters ::
  "(string \<Rightarrow> string) \<Rightarrow> Suggestion list \<Rightarrow> GridApi option \<Rightarrow> error + GridApi option" where
  "applyFilters toLowerCase filters api =
     (case api of
        None \<Rightarrow> Inr None
      | Some g \<Rightarrow>
          (case applyFilters_forEach toLowerCase filters of
             Inl e \<Rightarrow> Inl e
           | Inr (fm, globalTerms) \<Rightarrow>
               Inr (Some (g\<lparr>gridFilterModel := fm,
                            gridIsExternalFilterPresent := (\<lambda>_. isExternalFilterPresent globalTerms),
                            gridDoesExternalFilterPass :=
                              doesExternalFilterPass toLowerCase globalTerms,
                            gridFilterChanged := Suc (gridFilterChanged g)\<rparr>))))"

subsection \<open>State and handlers\<close>

text \<open>
  The state of the component, and what a handler does: a handler reads the state of the
  render it was created in and issues calls, in order. \<open>run\<close> carries the calls out;
  a call of \<open>applyFilters\<close> that raises ends the handler, and the state updates issued
  before it stay.
\<close>

record State =
  inputValue :: string
  selected :: "Suggestion list"
  availableRows :: "RowData list"
  gridRef :: "GridApi option"

datatype effect =
    SetSelected "Suggestion list"
  | SetInputValue string
  | ApplyFilters "Suggestion list"
  | PreventDefault

fun exec :: "(string \<Rightarrow> string) \<Rightarrow> effect \<Rightarrow> State \<Rightarrow> error + State" where
  "exec toLowerCase (SetSelected v) st = Inr (st\<lparr>selected := v\<rparr>)"
| "exec toLowerCase (SetInputValue v) st = Inr (st\<lparr>inputValue := v\<rparr>)"
| "exec toLowerCase (ApplyFilters fs) st =
     (case applyFilters toLowerCase fs (gridRef st) of
        Inl e \<Rightarrow> Inl e
      | Inr g \<Rightarrow> Inr (st\<lparr>gridRef := g\<rparr>))"
| "exec toLowerCase PreventDefault st = Inr st"

fun run :: "(string \<Rightarrow> string) \<Rightarrow> effect list \<Rightarrow> State \<Rightarrow> State \<times> error option" where
  "run toLowerCase [] st = (st, None)"
| "run toLowerCase (e # es) st =
     (case exec toLowerCase e st of
        Inl err \<Rightarrow> (st, Some err)
      | Inr st' \<Rightarrow> run toLowerCase es st')"

text \<open>The memoised \<open>suggestions\<close> of a render.\<close>

definition suggestions_of :: "(string \<Rightarrow> string) \<Rightarrow> State \<Rightarrow> Suggestion list" where
  "suggestions_of toLowerCase st =
     suggestions toLowerCase (inputValue st) (columnValueMap (availableRows st))"

definition handleSelect :: "Suggestion list \<Rightarrow> State \<Rightarrow> effect list" where
  "handleSelect newValue st = [SetSelected newValue, ApplyFilters newValue]"

definition handleInputChange :: "string \<Rightarrow> State \<Rightarrow> effect list" where
  "handleInputChange newInput st = [SetInputValue newInput]"

definition handleBlur :: "(string \<Rightarrow> string) \<Rightarrow> State \<Rightarrow> effect list" where
  "handleBlur toLowerCase st =
     (if inputValue st \<noteq> [] \<and> length (suggestions_of toLowerCase st) = 0 then
        (let newGlobal = \<lparr>column = ''global'', value = inputValue st\<rparr>;
             updated = selected st @ [newGlobal]
         in [SetSelected updated, SetInputValue [], ApplyFilters updated])
      else [])"

text \<open>
  \<open>onKeyDown\<close> of the text field, with \<open>e.key\<close> as \<open>key\<close>: the branch that commits free
  text, then the branch that removes the last chip (\<open>updated.pop()\<close> on a copy).
\<close>

definition onKeyDown :: "(string \<Rightarrow> string) \<Rightarrow> string \<Rightarrow> State \<Rightarrow> effect list" where
  "onKeyDown toLowerCase key st =
     (if key = ''Enter'' \<and> inputValue st \<noteq> [] \<and> length (suggestions_of toLowerCase st) = 0 then
        (let newGlobal = \<lparr>column = ''global'', value = inputValue st\<rparr>;
             updated = selected st @ [newGlobal]
         in [PreventDefault, SetSelected updated, SetInputValue [], ApplyFilters updated])
      else [])
     @
     (if key = ''Backspace'' \<and> inputValue st = [] \<and> length (selected st) > 0 then
        (let updated = butlast (selected st)
         in [SetSelected updated, ApplyFilters updated])
      else [])"

text \<open>The state after a handler has run.\<close>

definition after ::
  "(string \<Rightarrow> string) \<Rightarrow> (State \<Rightarrow> effect list) \<Rightarrow> State \<Rightarrow> State" where
  "after toLowerCase handler st = fst (run toLowerCase (handler st) st)"

subsection \<open>Views used in the statements\<close>

text \<open>
  The filter model read as the column-filter map (a column to the set of its accepted
  values), the calls of \<open>applyFilters\<close> among the calls a handler issues, and two
  auxiliary predicates: a value is in the index under a column, and a chip names a
  column that \<open>filterModel\<close> can hold as an own property.
\<close>

definition column_filter :: "filter_model \<Rightarrow> string \<rightharpoonup> string set" where
  "column_filter fm c = map_option (\<lambda>e. set (values e)) (map_of fm c)"

fun applyFilters_calls :: "effect list \<Rightarrow> Suggestion list list" where
  "applyFilters_calls [] = []"
| "applyFilters_calls (ApplyFilters fs # es) = fs # applyFilters_calls es"
| "applyFilters_calls (_ # es) = applyFilters_calls es"

definition index_has :: "index \<Rightarrow> string \<Rightarrow> string \<Rightarrow> bool" where
  "index_has m c v = (\<exists>vs. map_of m c = Some vs \<and> v \<in> set vs)"

definition storable :: "Suggestion \<Rightarrow> bool" where
  "storable s = (column s = ''global'' \<or> column s \<notin> set Object_prototype)"

section \<open>Properties\<close>

subsection \<open>Strings\<close>

lemma includes_str_sublist: "includes_str s t \<longleftrightarrow> sublist t s"
  by (induction s) (auto simp: sublist_Cons_right)

lemma ascii_lower_char_idem: "ascii_lower_char (ascii_lower_char c) = ascii_lower_char c"
  by (simp add: ascii_lower_char_def Let_def)

lemma ascii_lower_idem: "ascii_lower (ascii_lower s) = ascii_lower s"
  by (simp add: ascii_lower_def ascii_lower_char_idem)

lemma includes_str_ci:
  "includes_str (toLowerCase v) (toLowerCase t) \<longleftrightarrow> ci_substring toLowerCase t v"
  by (simp add: includes_str_sublist ci_substring_def)

text \<open>
  Case-insensitive: the answer depends on the two strings through their lowercased forms
  only, so strings that differ in case alone are not told apart.
\<close>

lemma ci_substring_case:
  "toLowerCase t = toLowerCase t' \<Longrightarrow> toLowerCase v = toLowerCase v' \<Longrightarrow>
     ci_substring toLowerCase t v = ci_substring toLowerCase t' v'"
  by (simp add: ci_substring_def)

subsection \<open>The value index\<close>

lemma set_Set_add: "set (Set_add v s) = insert v (set s)"
  by (auto simp: Set_add_def)

lemma distinct_Set_add: "distinct s \<Longrightarrow> distinct (Set_add v s)"
  by (simp add: Set_add_def)

lemma map_of_columnValueMap_each:
  "map_of (columnValueMap_each (c, v) m) =
     (map_of m)(c \<mapsto> Set_add (String_of v) (case map_of m c of None \<Rightarrow> [] | Some vs \<Rightarrow> vs))"
  by (auto simp: columnValueMap_each_def Let_def AList.map_of_map_entry fun_eq_iff map_add_def
      split: option.splits)

lemma index_has_each:
  "index_has (columnValueMap_each (c', v') m) c v \<longleftrightarrow>
     index_has m c v \<or> (c = c' \<and> v = String_of v')"
  by (cases "map_of m c'") (auto simp: index_has_def map_of_columnValueMap_each set_Set_add)

lemma dom_columnValueMap_each:
  "dom (map_of (columnValueMap_each (c', v') m)) = insert c' (dom (map_of m))"
  by (auto simp: map_of_columnValueMap_each)

lemma index_has_fold_each:
  "index_has (fold columnValueMap_each es m) c v \<longleftrightarrow>
     index_has m c v \<or> (\<exists>val. (c, val) \<in> set es \<and> String_of val = v)"
proof (induction es arbitrary: m)
  case Nil
  show ?case by simp
next
  case (Cons e es)
  obtain c' v' where e: "e = (c', v')" by (cases e)
  show ?case unfolding e by (auto simp: Cons.IH index_has_each)
qed

lemma dom_fold_each:
  "dom (map_of (fold columnValueMap_each es m)) = dom (map_of m) \<union> fst ` set es"
proof (induction es arbitrary: m)
  case Nil
  show ?case by simp
next
  case (Cons e es)
  obtain c' v' where e: "e = (c', v')" by (cases e)
  show ?case unfolding e by (simp add: Cons.IH dom_columnValueMap_each)
qed

lemma index_has_fold_rows:
  "index_has (fold (\<lambda>row m. fold columnValueMap_each (Object_entries row) m) rows m) c v \<longleftrightarrow>
     index_has m c v \<or>
     (\<exists>row \<in> set rows. \<exists>val. (c, val) \<in> set (Object_entries row) \<and> String_of val = v)"
  by (induction rows arbitrary: m) (auto simp: index_has_fold_each)

lemma dom_fold_rows:
  "dom (map_of (fold (\<lambda>row m. fold columnValueMap_each (Object_entries row) m) rows m)) =
     dom (map_of m) \<union> (\<Union>row \<in> set rows. fst ` set (Object_entries row))"
  by (induction rows arbitrary: m) (auto simp: dom_fold_each)

lemma index_has_columnValueMap:
  "index_has (columnValueMap R) c v \<longleftrightarrow>
     (\<exists>row \<in> set R. \<exists>val. (c, val) \<in> set (Object_entries row) \<and> String_of val = v)"
  by (simp add: columnValueMap_def index_has_fold_rows) (simp add: index_has_def)

lemma dom_columnValueMap:
  "dom (map_of (columnValueMap R)) = (\<Union>row \<in> set R. fst ` set (Object_entries row))"
  by (simp add: columnValueMap_def dom_fold_rows)

text \<open>The index that \<open>columnValueMap\<close> builds is an object: no key occurs twice.\<close>

lemma distinct_keys_each:
  "distinct (map fst m) \<Longrightarrow> distinct (map fst (columnValueMap_each e m))"
  by (auto simp: columnValueMap_each_def Let_def map_of_eq_None_iff intro!: AList.distinct_map_entry)

lemma distinct_keys_fold_each:
  "distinct (map fst m) \<Longrightarrow> distinct (map fst (fold columnValueMap_each es m))"
  by (induction es arbitrary: m) (simp_all add: distinct_keys_each)

lemma distinct_keys_columnValueMap: "distinct (map fst (columnValueMap R))"
proof -
  have "distinct (map fst m) \<Longrightarrow>
          distinct (map fst (fold (\<lambda>row m. fold columnValueMap_each (Object_entries row) m) R m))"
    for m
    by (induction R arbitrary: m) (simp_all add: distinct_keys_fold_each)
  then show ?thesis by (simp add: columnValueMap_def)
qed

lemma index_map_columnValueMap:
  "index_map (columnValueMap R) c =
     (if \<exists>row \<in> set R. c \<in> fst ` set (Object_entries row)
      then Some {v. \<exists>row \<in> set R. \<exists>val. (c, val) \<in> set (Object_entries row) \<and> String_of val = v}
      else None)"
proof (cases "map_of (columnValueMap R) c")
  case None
  then have "c \<notin> dom (map_of (columnValueMap R))" by auto
  then show ?thesis using None by (simp add: dom_columnValueMap index_map_def)
next
  case (Some vs)
  then have "c \<in> dom (map_of (columnValueMap R))" by auto
  then have k: "\<exists>row \<in> set R. c \<in> fst ` set (Object_entries row)"
    by (simp add: dom_columnValueMap)
  have "set vs = {v. index_has (columnValueMap R) c v}"
    using Some by (auto simp: index_has_def)
  then show ?thesis using Some k by (simp add: index_map_def index_has_columnValueMap)
qed

text \<open>
  C3. For every sequence of rows \<open>R\<close>, every column name \<open>c\<close> and every string \<open>v\<close>:
  the value index built from \<open>R\<close> contains \<open>v\<close> in the set for \<open>c\<close> iff some row
  of \<open>R\<close> has a field named \<open>c\<close> whose stringified value equals \<open>v\<close>.
\<close>

theorem columnValueMap_contains_iff:
  "(\<exists>S. index_map (columnValueMap R) c = Some S \<and> v \<in> S) \<longleftrightarrow>
     (\<exists>row \<in> set R. \<exists>val. (c, val) \<in> set (Object_entries row) \<and> String_of val = v)"
  using index_has_columnValueMap [of R c v] by (auto simp: index_has_def index_map_def)

theorem columnValueMap_contains_iff_witness:
  "(\<exists>S. index_map (columnValueMap rowData) ''sector'' = Some S \<and> ''Tech'' \<in> S)
   \<and> \<not> (\<exists>S. index_map (columnValueMap rowData) ''sector'' = Some S \<and> ''Ford'' \<in> S)"
  using columnValueMap_contains_iff [of rowData "''sector''" "''Tech''"]
    columnValueMap_contains_iff [of rowData "''sector''" "''Ford''"]
  by (simp add: rowData_def Object_entries_def String_of_def)

text \<open>
  C9. For every sequence of rows \<open>R\<close> and every permutation \<open>R'\<close> of \<open>R\<close>, the value
  index built from \<open>R'\<close> equals the one built from \<open>R\<close> as a mapping from column
  names to sets of strings.
\<close>

theorem columnValueMap_row_order:
  assumes "mset R' = mset R"
  shows "index_map (columnValueMap R') = index_map (columnValueMap R)"
proof -
  have "set R' = set R" using assms by (rule mset_eq_setD)
  then show ?thesis by (simp add: fun_eq_iff index_map_columnValueMap)
qed

theorem columnValueMap_row_order_witness:
  "index_map (columnValueMap (rev rowData)) = index_map (columnValueMap rowData)"
  using columnValueMap_row_order [of "rev rowData" rowData] by simp

subsection \<open>Suggestions\<close>

lemma set_fold_suggestions_each:
  "set (fold (suggestions_each toLowerCase t col) vals res) =
     set res \<union> {\<lparr>column = col, value = v\<rparr> | v. v \<in> set vals \<and> ci_substring toLowerCase t v}"
  by (induction vals arbitrary: res) (auto simp: suggestions_each_def includes_str_ci)

lemma set_fold_suggestions:
  "set (fold (\<lambda>(col, vals) results. fold (suggestions_each toLowerCase t col) vals results) I res) =
     set res \<union> {\<lparr>column = col, value = v\<rparr> | col vals v.
                   (col, vals) \<in> set I \<and> v \<in> set vals \<and> ci_substring toLowerCase t v}"
proof (induction I arbitrary: res)
  case Nil
  show ?case by simp
next
  case (Cons p I)
  obtain col vals where p: "p = (col, vals)" by (cases p)
  show ?case unfolding p by (simp add: Cons.IH set_fold_suggestions_each) blast
qed

lemma set_suggestions:
  "t \<noteq> [] \<Longrightarrow> set (suggestions toLowerCase t I) =
     {\<lparr>column = col, value = v\<rparr> | col vals v.
        (col, vals) \<in> set I \<and> v \<in> set vals \<and> ci_substring toLowerCase t v}"
  by (simp add: suggestions_def set_fold_suggestions)

text \<open>
  C4. For every non-empty input text \<open>t\<close> and every index \<open>I\<close> (an object: no key
  twice), the suggestion list computed from \<open>t\<close> and \<open>I\<close> contains the pair
  \<open>(c, v)\<close> iff \<open>c\<close> is a key of \<open>I\<close>, \<open>v\<close> is in \<open>I\<close>'s set for \<open>c\<close>, and \<open>v\<close>
  contains \<open>t\<close> as a case-insensitive substring; hence the value of every returned
  suggestion case-insensitively contains \<open>t\<close> and its column is a key of \<open>I\<close>.
\<close>

theorem suggestions_contains_iff:
  assumes "t \<noteq> []" and "distinct (map fst I)"
  shows "(\<lparr>column = c, value = v\<rparr> \<in> set (suggestions toLowerCase t I) \<longleftrightarrow>
            c \<in> index_keys I \<and> (\<exists>S. index_map I c = Some S \<and> v \<in> S) \<and>
            ci_substring toLowerCase t v)
         \<and> (\<forall>s \<in> set (suggestions toLowerCase t I).
               ci_substring toLowerCase t (value s) \<and> column s \<in> index_keys I)"
proof -
  have m: "\<And>col vals. (col, vals) \<in> set I \<longleftrightarrow> map_of I col = Some vals"
    using assms(2) by (simp add: map_of_eq_Some_iff)
  have k: "\<And>col vals. map_of I col = Some vals \<Longrightarrow> col \<in> index_keys I"
    unfolding index_keys_def by (metis m fst_conv image_eqI)
  show ?thesis
    unfolding set_suggestions [OF assms(1)] using k by (auto simp: m index_map_def)
qed

theorem suggestions_contains_iff_witness:
  "\<lparr>column = ''sector'', value = ''Tech''\<rparr>
     \<in> set (suggestions ascii_lower ''tech'' [(''sector'', [''Tech'', ''Auto'', ''Finance''])])
   \<and> \<lparr>column = ''sector'', value = ''Auto''\<rparr>
     \<notin> set (suggestions ascii_lower ''tech'' [(''sector'', [''Tech'', ''Auto'', ''Finance''])])"
proof -
  have t: "''tech'' \<noteq> []" by simp
  have d: "distinct (map fst [(''sector'', [''Tech'', ''Auto'', ''Finance''])])" by simp
  have y: "ci_substring ascii_lower ''tech'' ''Tech''" by code_simp
  have n: "\<not> ci_substring ascii_lower ''tech'' ''Auto''" by code_simp
  show ?thesis
    using suggestions_contains_iff [OF t d, where toLowerCase = ascii_lower
          and c = "''sector''" and v = "''Tech''"]
      suggestions_contains_iff [OF t d, where toLowerCase = ascii_lower
          and c = "''sector''" and v = "''Auto''"] y n
    by (simp add: index_keys_def index_map_def)
qed

text \<open>
  C7. For every index \<open>I\<close>, suggesting on the empty input string returns the empty
  sequence.
\<close>

theorem suggestions_empty_input: "suggestions toLowerCase [] I = []"
  by (simp add: suggestions_def)

subsection \<open>Translating the chips into filters\<close>

lemma each_global:
  "column s = ''global'' \<Longrightarrow>
     applyFilters_each toLowerCase s (fm, gts) = Inr (fm, gts @ [toLowerCase (value s)])"
  by (simp add: applyFilters_each_def)

lemma each_column_terms:
  "applyFilters_each toLowerCase s (fm, gts) = Inr (fm', gts') \<Longrightarrow> column s \<noteq> ''global'' \<Longrightarrow> gts' = gts"
  by (auto simp: applyFilters_each_def Let_def split: property.splits)

lemma each_column_new:
  assumes "column s \<noteq> ''global''" and "column s \<notin> set Object_prototype"
    and "map_of fm (column s) = None"
  shows "applyFilters_each toLowerCase s (fm, gts) =
           Inr (fm @ [(column s, \<lparr>filterType = ''set'', values = [value s]\<rparr>)], gts)"
proof -
  have "AList.map_entry (column s) (\<lambda>e. e\<lparr>values := values e @ [value s]\<rparr>)
          (fm @ [(column s, \<lparr>filterType = ''set'', values = []\<rparr>)]) =
        fm @ [(column s, \<lparr>filterType = ''set'', values = [value s]\<rparr>)]"
    using assms(3) by (induction fm) (auto split: if_splits)
  then show ?thesis
    using assms by (simp add: applyFilters_each_def get_property_def Let_def map_add_def)
qed

lemma each_column_old:
  assumes "column s \<noteq> ''global''" and "map_of fm (column s) = Some e"
  shows "applyFilters_each toLowerCase s (fm, gts) =
           Inr (AList.map_entry (column s) (\<lambda>e. e\<lparr>values := values e @ [value s]\<rparr>) fm, gts)"
  using assms by (simp add: applyFilters_each_def get_property_def Let_def)

lemma each_column_inherited:
  assumes "column s \<noteq> ''global''" and "column s \<in> set Object_prototype"
    and "map_of fm (column s) = None"
  shows "applyFilters_each toLowerCase s (fm, gts) = Inl TypeError"
  using assms by (simp add: applyFilters_each_def get_property_def Let_def)

lemma each_storable:
  assumes "column s \<noteq> ''global''" and "column s \<notin> set Object_prototype"
  shows "\<exists>fm'. applyFilters_each toLowerCase s (fm, gts) = Inr (fm', gts) \<and>
           map_of fm' = (map_of fm)(column s \<mapsto>
             (case map_of fm (column s) of
                None \<Rightarrow> \<lparr>filterType = ''set'', values = [value s]\<rparr>
              | Some e \<Rightarrow> e\<lparr>values := values e @ [value s]\<rparr>))"
proof (cases "map_of fm (column s)")
  case None
  show ?thesis
    unfolding each_column_new [OF assms None] using None
    by (auto simp: fun_eq_iff map_add_def split: option.splits)
next
  case (Some e)
  show ?thesis
    unfolding each_column_old [OF assms(1) Some] using Some
    by (auto simp: fun_eq_iff AList.map_of_map_entry)
qed

text \<open>The global terms of a translation that returns: the lowercased global chips.\<close>

lemma forEach_globalTerms:
  "forEach (applyFilters_each toLowerCase) chips (fm, gts) = Inr (fm', gts') \<Longrightarrow>
     gts' = gts @ map (\<lambda>s. toLowerCase (value s)) (filter (\<lambda>s. column s = ''global'') chips)"
proof (induction chips arbitrary: fm gts)
  case Nil
  then show ?case by simp
next
  case (Cons s chips)
  from Cons.prems obtain fm1 gts1 where
    step: "applyFilters_each toLowerCase s (fm, gts) = Inr (fm1, gts1)" and
    rest: "forEach (applyFilters_each toLowerCase) chips (fm1, gts1) = Inr (fm', gts')"
    by (auto split: sum.splits)
  have "gts1 = gts @ (if column s = ''global'' then [toLowerCase (value s)] else [])"
    using step each_column_terms [OF step] by (auto simp: each_global)
  with Cons.IH [OF rest] show ?case by simp
qed

text \<open>
  The entries of a translation of storable chips, from any filter model the loop starts
  in: the values of the chips of a column are appended to its entry, in chip order.
\<close>

lemma forEach_storable:
  assumes "\<forall>s \<in> set chips. storable s"
  shows "\<exists>fm' gts'. forEach (applyFilters_each toLowerCase) chips (fm, gts) = Inr (fm', gts') \<and>
           (\<forall>c. map_of fm' c =
              (let new = map value (filter (\<lambda>s. column s = c) chips) in
               if c = ''global'' \<or> new = [] then map_of fm c
               else Some (case map_of fm c of
                            None \<Rightarrow> \<lparr>filterType = ''set'', values = new\<rparr>
                          | Some e \<Rightarrow> e\<lparr>values := values e @ new\<rparr>)))"
  using assms
proof (induction chips arbitrary: fm gts)
  case Nil
  show ?case by simp
next
  case (Cons s chips)
  have rest: "\<forall>s \<in> set chips. storable s" using Cons.prems by simp
  show ?case
  proof (cases "column s = ''global''")
    case True
    obtain fm' gts' where
      r: "forEach (applyFilters_each toLowerCase) chips (fm, gts @ [toLowerCase (value s)]) = Inr (fm', gts')" and
      m: "\<forall>c. map_of fm' c =
              (let new = map value (filter (\<lambda>s. column s = c) chips) in
               if c = ''global'' \<or> new = [] then map_of fm c
               else Some (case map_of fm c of
                            None \<Rightarrow> \<lparr>filterType = ''set'', values = new\<rparr>
                          | Some e \<Rightarrow> e\<lparr>values := values e @ new\<rparr>))"
      using Cons.IH [OF rest, of fm "gts @ [toLowerCase (value s)]"] by blast
    have "forEach (applyFilters_each toLowerCase) (s # chips) (fm, gts) = Inr (fm', gts')"
      using r by (simp add: each_global [OF True])
    moreover have "\<forall>c. map_of fm' c =
              (let new = map value (filter (\<lambda>s. column s = c) (s # chips)) in
               if c = ''global'' \<or> new = [] then map_of fm c
               else Some (case map_of fm c of
                            None \<Rightarrow> \<lparr>filterType = ''set'', values = new\<rparr>
                          | Some e \<Rightarrow> e\<lparr>values := values e @ new\<rparr>))"
      using m True by (auto simp: Let_def)
    ultimately show ?thesis by blast
  next
    case False
    then have np: "column s \<notin> set Object_prototype" using Cons.prems by (simp add: storable_def)
    obtain fm1 where
      s1: "applyFilters_each toLowerCase s (fm, gts) = Inr (fm1, gts)" and
      m1: "map_of fm1 = (map_of fm)(column s \<mapsto>
             (case map_of fm (column s) of
                None \<Rightarrow> \<lparr>filterType = ''set'', values = [value s]\<rparr>
              | Some e \<Rightarrow> e\<lparr>values := values e @ [value s]\<rparr>))"
      using each_storable [OF False np, where fm = fm and gts = gts and toLowerCase = toLowerCase]
      by blast
    obtain fm' gts' where
      r: "forEach (applyFilters_each toLowerCase) chips (fm1, gts) = Inr (fm', gts')" and
      m: "\<forall>c. map_of fm' c =
              (let new = map value (filter (\<lambda>s. column s = c) chips) in
               if c = ''global'' \<or> new = [] then map_of fm1 c
               else Some (case map_of fm1 c of
                            None \<Rightarrow> \<lparr>filterType = ''set'', values = new\<rparr>
                          | Some e \<Rightarrow> e\<lparr>values := values e @ new\<rparr>))"
      using Cons.IH [OF rest, of fm1 gts] by blast
    have "forEach (applyFilters_each toLowerCase) (s # chips) (fm, gts) = Inr (fm', gts')"
      using r by (simp add: s1)
    moreover have "\<forall>c. map_of fm' c =
              (let new = map value (filter (\<lambda>s. column s = c) (s # chips)) in
               if c = ''global'' \<or> new = [] then map_of fm c
               else Some (case map_of fm c of
                            None \<Rightarrow> \<lparr>filterType = ''set'', values = new\<rparr>
                          | Some e \<Rightarrow> e\<lparr>values := values e @ new\<rparr>))"
      using m False by (auto simp: Let_def m1 split: option.splits)
    ultimately show ?thesis by blast
  qed
qed

lemma applyFilters_forEach_storable:
  assumes "\<forall>s \<in> set chips. storable s"
  shows "\<exists>fm. applyFilters_forEach toLowerCase chips =
             Inr (fm, map (\<lambda>s. toLowerCase (value s)) (filter (\<lambda>s. column s = ''global'') chips)) \<and>
           (\<forall>c. map_of fm c =
              (let new = map value (filter (\<lambda>s. column s = c) chips) in
               if c = ''global'' \<or> new = [] then None
               else Some \<lparr>filterType = ''set'', values = new\<rparr>))"
proof -
  obtain fm' gts' where
    r: "forEach (applyFilters_each toLowerCase) chips ([], []) = Inr (fm', gts')" and
    m: "\<forall>c. map_of fm' c =
              (let new = map value (filter (\<lambda>s. column s = c) chips) in
               if c = ''global'' \<or> new = [] then map_of [] c
               else Some (case map_of [] c of
                            None \<Rightarrow> \<lparr>filterType = ''set'', values = new\<rparr>
                          | Some e \<Rightarrow> e\<lparr>values := values e @ new\<rparr>))"
    using forEach_storable [OF assms, where fm = "[]" and gts = "[]" and toLowerCase = toLowerCase]
    by blast
  have "gts' = map (\<lambda>s. toLowerCase (value s)) (filter (\<lambda>s. column s = ''global'') chips)"
    using forEach_globalTerms [OF r] by simp
  then show ?thesis using r m by (simp add: applyFilters_forEach_def Let_def)
qed

text \<open>
  A chip that is not storable ends the translation: no own property of \<open>filterModel\<close>
  ever has an inherited name, so the read finds the inherited property.
\<close>

lemma forEach_inherited:
  assumes "\<exists>s \<in> set chips. \<not> storable s" and "dom (map_of fm) \<inter> set Object_prototype = {}"
  shows "forEach (applyFilters_each toLowerCase) chips (fm, gts) = Inl TypeError"
  using assms
proof (induction chips arbitrary: fm gts)
  case Nil
  then show ?case by simp
next
  case (Cons s chips)
  show ?case
  proof (cases "storable s")
    case False
    then have a: "column s \<noteq> ''global''" and b: "column s \<in> set Object_prototype"
      by (simp_all add: storable_def)
    have "map_of fm (column s) = None" using b Cons.prems(2) by auto
    then show ?thesis by (simp add: each_column_inherited [OF a b])
  next
    case True
    then have rest: "\<exists>s \<in> set chips. \<not> storable s" using Cons.prems(1) by auto
    show ?thesis
    proof (cases "column s = ''global''")
      case True
      show ?thesis
        using Cons.IH [OF rest Cons.prems(2)] by (simp add: each_global [OF True])
    next
      case False
      then have np: "column s \<notin> set Object_prototype"
        using \<open>storable s\<close> by (simp add: storable_def)
      obtain fm1 where
        s1: "applyFilters_each toLowerCase s (fm, gts) = Inr (fm1, gts)" and
        m1: "map_of fm1 = (map_of fm)(column s \<mapsto>
               (case map_of fm (column s) of
                  None \<Rightarrow> \<lparr>filterType = ''set'', values = [value s]\<rparr>
                | Some e \<Rightarrow> e\<lparr>values := values e @ [value s]\<rparr>))"
        using each_storable [OF False np, where fm = fm and gts = gts and toLowerCase = toLowerCase]
      by blast
      have "dom (map_of fm1) \<inter> set Object_prototype = {}"
        using Cons.prems(2) np by (simp add: m1)
      from Cons.IH [OF rest this] show ?thesis by (simp add: s1)
    qed
  qed
qed

lemma applyFilters_forEach_inherited:
  "\<exists>s \<in> set chips. column s \<noteq> ''global'' \<and> column s \<in> set Object_prototype \<Longrightarrow>
     applyFilters_forEach toLowerCase chips = Inl TypeError"
  unfolding applyFilters_forEach_def by (rule forEach_inherited) (auto simp: storable_def)

text \<open>
  The chips that reach \<open>applyFilters\<close> are suggestions, whose columns are columns of the
  grid, and committed free text, whose column is \<open>global\<close>. No column of the grid is a
  name that \<open>Object.prototype\<close> defines.
\<close>

lemma columnDefs_storable:
  "column s = ''global'' \<or> column s \<in> fst ` set columnDefs \<Longrightarrow> storable s"
  by (auto simp: storable_def columnDefs_def Object_prototype_def)

lemma suggestions_columns:
  assumes "s \<in> set (suggestions toLowerCase t (columnValueMap R))"
  shows "column s \<in> fst ` set columnDefs"
proof -
  have ne: "t \<noteq> []" using assms by (auto simp: suggestions_def split: if_splits)
  from assms obtain vals where "(column s, vals) \<in> set (columnValueMap R)"
    unfolding set_suggestions [OF ne] by auto
  then have "column s \<in> fst ` set (columnValueMap R)"
    by (rule rev_image_eqI) simp
  then have "column s \<in> dom (map_of (columnValueMap R))"
    by (simp add: dom_map_of_conv_image_fst)
  then obtain row where "column s \<in> fst ` set (Object_entries row)"
    unfolding dom_columnValueMap by blast
  then show ?thesis
    by (auto simp: Object_entries_def columnDefs_def)
qed

text \<open>
  C1. For every chip sequence (each chip on \<open>global\<close> or on a column of the grid), the
  translation returns a filter model and a term sequence: each column \<open>c\<close> other than
  \<open>global\<close> that occurs in some chip is mapped to exactly the set of the values of the
  chips whose column is \<open>c\<close>, a column with no chip has no entry, and the term sequence
  is the lowercased values of the \<open>global\<close> chips in chip order. The empty chip sequence
  gives the empty filter model and the empty term sequence.
\<close>

theorem applyFilters_forEach_translates:
  assumes "\<forall>s \<in> set chips. column s = ''global'' \<or> column s \<in> fst ` set columnDefs"
  shows "(\<exists>fm globalTerms. applyFilters_forEach toLowerCase chips = Inr (fm, globalTerms) \<and>
            (\<forall>c. column_filter fm c =
               (if c \<noteq> ''global'' \<and> c \<in> column ` set chips
                then Some {value s | s. s \<in> set chips \<and> column s = c} else None)) \<and>
            globalTerms = map (\<lambda>s. toLowerCase (value s)) (filter (\<lambda>s. column s = ''global'') chips))
         \<and> applyFilters_forEach toLowerCase [] = Inr ([], [])"
proof -
  have sf: "\<forall>s \<in> set chips. storable s" using assms columnDefs_storable by blast
  obtain fm where
    r: "applyFilters_forEach toLowerCase chips =
          Inr (fm, map (\<lambda>s. toLowerCase (value s)) (filter (\<lambda>s. column s = ''global'') chips))" and
    m: "\<forall>c. map_of fm c =
              (let new = map value (filter (\<lambda>s. column s = c) chips) in
               if c = ''global'' \<or> new = [] then None
               else Some \<lparr>filterType = ''set'', values = new\<rparr>)"
    using applyFilters_forEach_storable [OF sf] by blast
  have e: "\<And>c. (filter (\<lambda>s. column s = c) chips = []) = (c \<notin> column ` set chips)"
    by (auto simp: filter_empty_conv)
  have v: "\<And>c. set (map value (filter (\<lambda>s. column s = c) chips)) =
                 {value s | s. s \<in> set chips \<and> column s = c}"
    by auto
  have "\<forall>c. column_filter fm c =
               (if c \<noteq> ''global'' \<and> c \<in> column ` set chips
                then Some {value s | s. s \<in> set chips \<and> column s = c} else None)"
    using m e v by (simp add: column_filter_def Let_def)
  then show ?thesis using r by (simp add: applyFilters_forEach_def)
qed

theorem applyFilters_forEach_translates_witness:
  "\<exists>fm. applyFilters_forEach ascii_lower
           [\<lparr>column = ''sector'', value = ''Tech''\<rparr>, \<lparr>column = ''global'', value = ''Ford''\<rparr>,
            \<lparr>column = ''sector'', value = ''Auto''\<rparr>] = Inr (fm, [''ford''])
        \<and> column_filter fm ''sector'' = Some {''Tech'', ''Auto''}
        \<and> column_filter fm ''ticker'' = None
        \<and> column_filter fm ''global'' = None"
proof -
  let ?chips = "[\<lparr>column = ''sector'', value = ''Tech''\<rparr>, \<lparr>column = ''global'', value = ''Ford''\<rparr>,
            \<lparr>column = ''sector'', value = ''Auto''\<rparr>]"
  have h: "\<forall>s \<in> set ?chips. column s = ''global'' \<or> column s \<in> fst ` set columnDefs"
    by (simp add: columnDefs_def)
  from applyFilters_forEach_translates [OF h, where toLowerCase = ascii_lower] obtain fm gts where
    r: "applyFilters_forEach ascii_lower ?chips = Inr (fm, gts)" and
    cf: "\<And>c. column_filter fm c =
           (if c \<noteq> ''global'' \<and> c \<in> column ` set ?chips
            then Some {value s | s. s \<in> set ?chips \<and> column s = c} else None)" and
    g: "gts = map (\<lambda>s. ascii_lower (value s)) (filter (\<lambda>s. column s = ''global'') ?chips)"
    by blast
  have l: "ascii_lower ''Ford'' = ''ford''" by code_simp
  have g': "gts = [''ford'']" unfolding g by (simp add: l)
  have v: "{value s | s. s \<in> set ?chips \<and> column s = ''sector''} = {''Tech'', ''Auto''}"
  proof -
    have "{value s | s. s \<in> set ?chips \<and> column s = ''sector''} =
            value ` {s \<in> set ?chips. column s = ''sector''}"
      by blast
    also have "{s \<in> set ?chips. column s = ''sector''} =
            set (filter (\<lambda>s. column s = ''sector'') ?chips)"
      by (simp only: set_filter)
    finally show ?thesis by simp
  qed
  have c1: "column_filter fm ''sector'' = Some {''Tech'', ''Auto''}"
    unfolding cf [of "''sector''"] v [symmetric] by simp
  have c2: "column_filter fm ''ticker'' = None"
    unfolding cf [of "''ticker''"] by simp
  have c3: "column_filter fm ''global'' = None"
    unfolding cf [of "''global''"] by simp
  show ?thesis using r g' c1 c2 c3 by blast
qed

subsection \<open>The global predicate\<close>

lemma doesExternalFilterPass_includes:
  "doesExternalFilterPass toLowerCase globalTerms row \<longleftrightarrow>
     (\<forall>t \<in> set globalTerms. \<exists>val \<in> set (Object_values row).
        includes_str (toLowerCase (String_of val)) t)"
  by (cases globalTerms) (simp_all add: doesExternalFilterPass_def list_all_iff list_ex_iff)

lemma applyFilters_forEach_globalTerms:
  "applyFilters_forEach toLowerCase chips = Inr (fm, globalTerms) \<Longrightarrow>
     globalTerms = map (\<lambda>s. toLowerCase (value s)) (filter (\<lambda>s. column s = ''global'') chips)"
  using forEach_globalTerms [of toLowerCase chips "[]" "[]" fm globalTerms]
  by (simp add: applyFilters_forEach_def)

text \<open>
  C2. For every sequence of global terms derived from the chips and every row,
  \<open>doesExternalFilterPass\<close> accepts the row iff every term of the sequence is a
  case-insensitive substring of some stringified field value of the row; with the empty
  term sequence it accepts every row. The terms are the lowercased values of the
  \<open>global\<close> chips and the code looks each term up in the lowercased field, so the
  statement is given twice: for the values of the \<open>global\<close> chips, for every
  \<open>toLowerCase\<close>; and for the terms themselves, where lowercasing a lowercased string
  changes nothing.
\<close>

theorem doesExternalFilterPass_iff:
  assumes "applyFilters_forEach toLowerCase chips = Inr (fm, globalTerms)"
  shows "(doesExternalFilterPass toLowerCase globalTerms row \<longleftrightarrow>
            (\<forall>s \<in> set chips. column s = ''global'' \<longrightarrow>
               (\<exists>val \<in> set (Object_values row). ci_substring toLowerCase (value s) (String_of val))))
         \<and> ((\<forall>x. toLowerCase (toLowerCase x) = toLowerCase x) \<longrightarrow>
              (doesExternalFilterPass toLowerCase globalTerms row \<longleftrightarrow>
                 (\<forall>t \<in> set globalTerms. \<exists>val \<in> set (Object_values row).
                    ci_substring toLowerCase t (String_of val))))
         \<and> doesExternalFilterPass toLowerCase [] row"
proof -
  have g: "globalTerms = map (\<lambda>s. toLowerCase (value s)) (filter (\<lambda>s. column s = ''global'') chips)"
    using applyFilters_forEach_globalTerms [OF assms] .
  have A: "doesExternalFilterPass toLowerCase globalTerms row \<longleftrightarrow>
            (\<forall>s \<in> set chips. column s = ''global'' \<longrightarrow>
               (\<exists>val \<in> set (Object_values row). ci_substring toLowerCase (value s) (String_of val)))"
    unfolding doesExternalFilterPass_includes g by (auto simp: includes_str_ci)
  have B: "doesExternalFilterPass toLowerCase globalTerms row \<longleftrightarrow>
             (\<forall>t \<in> set globalTerms. \<exists>val \<in> set (Object_values row).
                ci_substring toLowerCase t (String_of val))"
    if idem: "\<forall>x. toLowerCase (toLowerCase x) = toLowerCase x"
  proof -
    have "includes_str (toLowerCase v) t = ci_substring toLowerCase t v"
      if "t \<in> set globalTerms" for t v
    proof -
      have "toLowerCase t = t" using that idem unfolding g by auto
      then show ?thesis using includes_str_ci [of toLowerCase v t] by simp
    qed
    then show ?thesis by (simp add: doesExternalFilterPass_includes)
  qed
  have C: "doesExternalFilterPass toLowerCase [] row"
    by (simp add: doesExternalFilterPass_def)
  show ?thesis using A B C by blast
qed

theorem doesExternalFilterPass_iff_witness:
  "doesExternalFilterPass ascii_lower [''ford''] \<lparr>ticker = ''F'', name = ''Ford'', sector = ''Auto''\<rparr>
   \<and> \<not> doesExternalFilterPass ascii_lower [''ford'']
         \<lparr>ticker = ''AAPL'', name = ''Apple Inc.'', sector = ''Tech''\<rparr>
   \<and> doesExternalFilterPass ascii_lower [] \<lparr>ticker = ''AAPL'', name = ''Apple Inc.'', sector = ''Tech''\<rparr>"
proof -
  let ?chips = "[\<lparr>column = ''global'', value = ''Ford''\<rparr>]"
  have a: "applyFilters_forEach ascii_lower ?chips = Inr ([], [''ford''])"
    by code_simp
  have i: "\<forall>x. ascii_lower (ascii_lower x) = ascii_lower x"
    by (simp add: ascii_lower_idem)
  have y: "ci_substring ascii_lower ''ford'' ''Ford''" "ci_substring ascii_lower ''Ford'' ''Ford''"
    by code_simp+
  have n: "\<not> ci_substring ascii_lower ''ford'' ''AAPL''"
    "\<not> ci_substring ascii_lower ''ford'' ''Apple Inc.''"
    "\<not> ci_substring ascii_lower ''ford'' ''Tech''"
    "\<not> ci_substring ascii_lower ''Ford'' ''AAPL''"
    "\<not> ci_substring ascii_lower ''Ford'' ''Apple Inc.''"
    "\<not> ci_substring ascii_lower ''Ford'' ''Tech''" by code_simp+
  show ?thesis
    using doesExternalFilterPass_iff [OF a,
          where row = "\<lparr>ticker = ''F'', name = ''Ford'', sector = ''Auto''\<rparr>"]
      doesExternalFilterPass_iff [OF a,
          where row = "\<lparr>ticker = ''AAPL'', name = ''Apple Inc.'', sector = ''Tech''\<rparr>"]
      i y n
    by (simp add: Object_values_def Object_entries_def String_of_def)
qed

subsection \<open>Handlers\<close>

text \<open>
  C5. For every state: when \<open>inputValue\<close> is non-empty and the suggestion list for it is
  empty, committing free text (\<open>handleBlur\<close>, and \<open>onKeyDown\<close> on \<open>Enter\<close>) appends the
  chip with column \<open>global\<close> and value \<open>inputValue\<close> to the chip sequence and clears the
  input text; otherwise both leave the state as it is.
\<close>

theorem commit_free_text:
  "(inputValue st \<noteq> [] \<and> suggestions_of toLowerCase st = [] \<longrightarrow>
      selected (after toLowerCase (handleBlur toLowerCase) st) =
        selected st @ [\<lparr>column = ''global'', value = inputValue st\<rparr>] \<and>
      inputValue (after toLowerCase (handleBlur toLowerCase) st) = [] \<and>
      selected (after toLowerCase (onKeyDown toLowerCase ''Enter'') st) =
        selected st @ [\<lparr>column = ''global'', value = inputValue st\<rparr>] \<and>
      inputValue (after toLowerCase (onKeyDown toLowerCase ''Enter'') st) = [])
   \<and> (\<not> (inputValue st \<noteq> [] \<and> suggestions_of toLowerCase st = []) \<longrightarrow>
      after toLowerCase (handleBlur toLowerCase) st = st \<and>
      after toLowerCase (onKeyDown toLowerCase ''Enter'') st = st)"
  by (simp add: after_def handleBlur_def onKeyDown_def Let_def split: sum.splits)

theorem commit_free_text_witness:
  "selected (after ascii_lower (handleBlur ascii_lower)
      \<lparr>inputValue = ''xyz'', selected = [\<lparr>column = ''sector'', value = ''Tech''\<rparr>],
       availableRows = rowData, gridRef = None\<rparr>) =
     [\<lparr>column = ''sector'', value = ''Tech''\<rparr>, \<lparr>column = ''global'', value = ''xyz''\<rparr>]
   \<and> inputValue (after ascii_lower (onKeyDown ascii_lower ''Enter'')
      \<lparr>inputValue = ''xyz'', selected = [\<lparr>column = ''sector'', value = ''Tech''\<rparr>],
       availableRows = rowData, gridRef = None\<rparr>) = []
   \<and> after ascii_lower (handleBlur ascii_lower)
      \<lparr>inputValue = ''tech'', selected = [], availableRows = rowData, gridRef = None\<rparr> =
      \<lparr>inputValue = ''tech'', selected = [], availableRows = rowData, gridRef = None\<rparr>"
proof -
  let ?a = "\<lparr>inputValue = ''xyz'', selected = [\<lparr>column = ''sector'', value = ''Tech''\<rparr>],
       availableRows = rowData, gridRef = None\<rparr>"
  let ?b = "\<lparr>inputValue = ''tech'', selected = [], availableRows = rowData, gridRef = None\<rparr>"
  have a: "suggestions_of ascii_lower ?a = []" by code_simp
  have b: "suggestions_of ascii_lower ?b \<noteq> []" by code_simp
  show ?thesis
    using commit_free_text [where st = ?a and toLowerCase = ascii_lower]
      commit_free_text [where st = ?b and toLowerCase = ascii_lower] a b
    by simp
qed

text \<open>
  C6. When the chip sequence is non-empty and the input text is empty, \<open>onKeyDown\<close> on
  \<open>Backspace\<close> removes exactly the last chip: the chips left, followed by the chip that
  was last, are the chips before. When the chip sequence is empty or the input text is
  non-empty, the chip sequence is unchanged.
\<close>

theorem backspace_removes_last:
  "(selected st \<noteq> [] \<and> inputValue st = [] \<longrightarrow>
      selected (after toLowerCase (onKeyDown toLowerCase ''Backspace'') st) @ [last (selected st)] =
        selected st)
   \<and> (selected st = [] \<or> inputValue st \<noteq> [] \<longrightarrow>
      selected (after toLowerCase (onKeyDown toLowerCase ''Backspace'') st) = selected st)"
  by (simp add: after_def onKeyDown_def Let_def split: sum.splits)

theorem backspace_removes_last_witness:
  "selected (after ascii_lower (onKeyDown ascii_lower ''Backspace'')
      \<lparr>inputValue = [],
       selected = [\<lparr>column = ''sector'', value = ''Tech''\<rparr>, \<lparr>column = ''global'', value = ''ford''\<rparr>],
       availableRows = rowData, gridRef = None\<rparr>) = [\<lparr>column = ''sector'', value = ''Tech''\<rparr>]
   \<and> selected (after ascii_lower (onKeyDown ascii_lower ''Backspace'')
      \<lparr>inputValue = ''f'',
       selected = [\<lparr>column = ''sector'', value = ''Tech''\<rparr>, \<lparr>column = ''global'', value = ''ford''\<rparr>],
       availableRows = rowData, gridRef = None\<rparr>) =
     [\<lparr>column = ''sector'', value = ''Tech''\<rparr>, \<lparr>column = ''global'', value = ''ford''\<rparr>]"
  using backspace_removes_last [where toLowerCase = ascii_lower and st = "\<lparr>inputValue = [],
       selected = [\<lparr>column = ''sector'', value = ''Tech''\<rparr>, \<lparr>column = ''global'', value = ''ford''\<rparr>],
       availableRows = rowData, gridRef = None\<rparr>"]
    backspace_removes_last [where toLowerCase = ascii_lower and st = "\<lparr>inputValue = ''f'',
       selected = [\<lparr>column = ''sector'', value = ''Tech''\<rparr>, \<lparr>column = ''global'', value = ''ford''\<rparr>],
       availableRows = rowData, gridRef = None\<rparr>"]
  by simp

text \<open>
  C10. \<open>handleBlur\<close> and \<open>onKeyDown\<close> on \<open>Enter\<close> do the same: for every state they
  leave the same chip sequence and the same input text, they call \<open>applyFilters\<close> with
  the same chip sequences, and the whole state after them is the same.
\<close>

theorem handleBlur_same_as_Enter:
  "selected (after toLowerCase (handleBlur toLowerCase) st) =
     selected (after toLowerCase (onKeyDown toLowerCase ''Enter'') st)
   \<and> inputValue (after toLowerCase (handleBlur toLowerCase) st) =
     inputValue (after toLowerCase (onKeyDown toLowerCase ''Enter'') st)
   \<and> applyFilters_calls (handleBlur toLowerCase st) =
     applyFilters_calls (onKeyDown toLowerCase ''Enter'' st)
   \<and> after toLowerCase (handleBlur toLowerCase) st =
     after toLowerCase (onKeyDown toLowerCase ''Enter'') st"
  by (simp add: after_def handleBlur_def onKeyDown_def Let_def)

theorem handleBlur_same_as_Enter_witness:
  "applyFilters_calls (handleBlur ascii_lower
      \<lparr>inputValue = ''xyz'', selected = [], availableRows = rowData, gridRef = None\<rparr>) =
     [[\<lparr>column = ''global'', value = ''xyz''\<rparr>]]
   \<and> applyFilters_calls (onKeyDown ascii_lower ''Enter''
      \<lparr>inputValue = ''xyz'', selected = [], availableRows = rowData, gridRef = None\<rparr>) =
     [[\<lparr>column = ''global'', value = ''xyz''\<rparr>]]"
proof -
  let ?a = "\<lparr>inputValue = ''xyz'', selected = [], availableRows = rowData, gridRef = None\<rparr>"
  have a: "suggestions_of ascii_lower ?a = []" by code_simp
  have "applyFilters_calls (handleBlur ascii_lower ?a) = [[\<lparr>column = ''global'', value = ''xyz''\<rparr>]]"
    using a by (simp add: handleBlur_def Let_def)
  then show ?thesis
    using handleBlur_same_as_Enter [where st = ?a and toLowerCase = ascii_lower] by simp
qed

text \<open>
  C8, as the code has it. For every current chip sequence and every chosen suggestion:
  \<open>handleSelect\<close>, which the widget calls with the new chip sequence \<open>newValue\<close>, sets
  the chip sequence to \<open>newValue\<close> and calls \<open>applyFilters\<close> with it, so that called
  with the current chip sequence with the chosen suggestion appended it leaves the chosen
  suggestion appended; it does not change the input text.
\<close>

theorem handleSelect_replaces:
  "selected (after toLowerCase (handleSelect newValue) st) = newValue
   \<and> applyFilters_calls (handleSelect newValue st) = [newValue]
   \<and> selected (after toLowerCase (handleSelect (selected st @ [chosen])) st) = selected st @ [chosen]
   \<and> inputValue (after toLowerCase (handleSelect newValue) st) = inputValue st"
  by (simp add: after_def handleSelect_def split: sum.splits)

text \<open>
  \<open>handleSelect\<close>, called with the chosen suggestion appended to the chips, keeps the
  input text \<open>tech\<close>.
\<close>

theorem handleSelect_counterexample:
  "inputValue (after ascii_lower (handleSelect [\<lparr>column = ''sector'', value = ''Tech''\<rparr>])
      \<lparr>inputValue = ''tech'', selected = [], availableRows = rowData, gridRef = None\<rparr>) = ''tech''"
  by (simp add: after_def handleSelect_def applyFilters_def)

end
